theory Spec2Isabelle
  imports Main
begin

section \<open>Promises and console output\<close>

text \<open>
  The plugins of \<^verbatim>\<open>packages/apputils-extension/src/index.ts\<close> run on a single-threaded
  event loop.  A promise handed over by a collaborator (settings service, workspace
  service, state database) is modelled by what it settles to, if it settles at all.
\<close>

type_synonym reason = string

datatype 'a promise = Pending | Fulfilled 'a | Rejected reason

definition promise_then :: "'a promise \<Rightarrow> ('a \<Rightarrow> 'b promise) \<Rightarrow> 'b promise" where
  "promise_then p f = (case p of Pending \<Rightarrow> Pending | Fulfilled v \<Rightarrow> f v | Rejected r \<Rightarrow> Rejected r)"

datatype log = ConsoleLog string | ConsoleWarn string reason

section \<open>SettingsConnector\<close>

text \<open>
  \<^verbatim>\<open>ISettingRegistry.IPlugin\<close> is declared elsewhere; only its \<^verbatim>\<open>id\<close> field is touched
  here, so the remaining fields travel as one opaque component.
\<close>

record 'r plugin =
  plugin_id :: string
  plugin_rest :: 'r

text \<open>
  \<^verbatim>\<open>fetch(id)\<close>: the first argument stands for \<^verbatim>\<open>this._manager.settings.fetch\<close>.
\<close>

definition SettingsConnector_fetch ::
  "(string \<Rightarrow> 'r plugin promise) \<Rightarrow> string \<Rightarrow> 'r plugin promise" where
  "SettingsConnector_fetch settings_fetch ident =
     promise_then (settings_fetch ident) (\<lambda>data. Fulfilled (data\<lparr>plugin_id := ident\<rparr>))"

section \<open>Theme commands\<close>

text \<open>
  Command arguments are JSON values read by key; a missing key reads as
  \<^verbatim>\<open>undefined\<close>.  The values that occur for \<^verbatim>\<open>theme\<close> and \<^verbatim>\<open>isPalette\<close> are strings,
  booleans, \<^verbatim>\<open>null\<close> and \<^verbatim>\<open>undefined\<close>; numbers, arrays and objects are left out.
\<close>

datatype jsval = JUndefined | JNull | JBool bool | JString string

record theme_args =
  theme :: jsval
  isPalette :: jsval

text \<open>JavaScript truthiness, as used by the conditional operator.\<close>

fun truthy :: "jsval \<Rightarrow> bool" where
  "truthy JUndefined = False"
| "truthy JNull = False"
| "truthy (JBool b) = b"
| "truthy (JString s) = (s \<noteq> [])"

text \<open>String conversion, as used by a template literal.\<close>

fun to_string :: "jsval \<Rightarrow> string" where
  "to_string JUndefined = ''undefined''"
| "to_string JNull = ''null''"
| "to_string (JBool b) = (if b then ''true'' else ''false'')"
| "to_string (JString s) = s"

text \<open>\<^verbatim>\<open>manager.theme\<close> has type \<^verbatim>\<open>string | null\<close>.\<close>

fun js_of_theme :: "string option \<Rightarrow> jsval" where
  "js_of_theme None = JNull"
| "js_of_theme (Some t) = JString t"

text \<open>
  Strict equality \<^verbatim>\<open>===\<close> on these primitive values compares type and value.
\<close>

definition strict_eq :: "jsval \<Rightarrow> jsval \<Rightarrow> bool" where
  "strict_eq a b = (a = b)"

definition changeTheme_label :: "theme_args \<Rightarrow> jsval" where
  "changeTheme_label args =
     (let t = theme args
      in if truthy (isPalette args) then JString (''Use '' @ to_string t @ '' Theme'') else t)"

definition changeTheme_isToggled :: "string option \<Rightarrow> theme_args \<Rightarrow> bool" where
  "changeTheme_isToggled manager_theme args = strict_eq (theme args) (js_of_theme manager_theme)"

text \<open>
  \<^verbatim>\<open>execute\<close>: the theme manager is a collaborator; \<open>manager_theme\<close> reads its
  \<^verbatim>\<open>theme\<close> property and \<open>setTheme\<close> is its \<^verbatim>\<open>setTheme\<close> method, acting on the
  manager's state \<open>m\<close>.
\<close>

definition changeTheme_execute ::
  "('m \<Rightarrow> string option) \<Rightarrow> (jsval \<Rightarrow> 'm \<Rightarrow> 'm) \<Rightarrow> theme_args \<Rightarrow> 'm \<Rightarrow> 'm" where
  "changeTheme_execute manager_theme setTheme args m =
     (if strict_eq (theme args) (js_of_theme (manager_theme m)) then m
      else setTheme (theme args) m)"

text \<open>A manager that only records the calls of \<^verbatim>\<open>setTheme\<close>, for concrete runs.\<close>

record recording_manager =
  current_theme :: "string option"
  setTheme_calls :: "jsval list"

definition record_setTheme :: "jsval \<Rightarrow> recording_manager \<Rightarrow> recording_manager" where
  "record_setTheme v m = m\<lparr>setTheme_calls := setTheme_calls m @ [v]\<rparr>"

section \<open>Splash screen\<close>

text \<open>
  The module-private state of namespace \<^verbatim>\<open>Private\<close> together with the part of the page
  it acts on: whether the splash element exists, whether it carries the class
  \<^verbatim>\<open>splash-fade\<close>, whether it is a child of \<^verbatim>\<open>document.body\<close>, the counter, the
  disposable handles given out (\<open>True\<close> while the handle has not been disposed), the
  clock in milliseconds, the due times of the pending \<^verbatim>\<open>setTimeout\<close> callbacks, and the
  number of callbacks that threw.
\<close>

record page =
  splash :: bool
  splash_fade :: bool
  attached :: bool
  splashCount :: int
  handles :: "bool list"
  now :: nat
  timers :: "nat list"
  uncaught :: nat

definition page_init :: page where
  "page_init = \<lparr>splash = False, splash_fade = False, attached = False, splashCount = 0,
     handles = [], now = 0, timers = [], uncaught = 0\<rparr>"

text \<open>
  \<^verbatim>\<open>showSplash\<close>: builds the element on first use, removes the fade class, appends the
  element to the body, increments the counter and returns a new handle.
\<close>

definition showSplash :: "page \<Rightarrow> page" where
  "showSplash s =
     (let s1 = (if \<not> splash s then s\<lparr>splash := True\<rparr> else s);
          s2 = s1\<lparr>splash_fade := False\<rparr>;
          s3 = s2\<lparr>attached := True\<rparr>;
          s4 = s3\<lparr>splashCount := splashCount s3 + 1\<rparr>
      in s4\<lparr>handles := handles s4 @ [True]\<rparr>)"

text \<open>The callback wrapped by the handle.\<close>

definition release :: "page \<Rightarrow> page" where
  "release s =
     (let s1 = s\<lparr>splashCount := max (splashCount s - 1) 0\<rparr>
      in if splashCount s1 = 0 \<and> splash s1
         then s1\<lparr>splash_fade := True, timers := timers s1 @ [now s1 + 500]\<rparr>
         else s1)"

text \<open>
  Disposing handle \<open>h\<close>: a \<^verbatim>\<open>DisposableDelegate\<close> runs its callback on the first
  \<^verbatim>\<open>dispose()\<close> only.
\<close>

definition dispose_handle :: "nat \<Rightarrow> page \<Rightarrow> page" where
  "dispose_handle h s =
     (if h < length (handles s) \<and> handles s ! h
      then release (s\<lparr>handles := (handles s)[h := False]\<rparr>)
      else s)"

text \<open>
  The timer callback \<^verbatim>\<open>document.body.removeChild(splash)\<close>: it detaches the element, and
  throws when the element is not a child of the body.
\<close>

definition removeChild :: "page \<Rightarrow> page" where
  "removeChild s = (if attached s then s\<lparr>attached := False\<rparr> else s\<lparr>uncaught := uncaught s + 1\<rparr>)"

text \<open>Time passes by \<open>d\<close> milliseconds; the callbacks that are due run in order.\<close>

definition elapse :: "nat \<Rightarrow> page \<Rightarrow> page" where
  "elapse d s =
     (let t = now s + d;
          due = filter (\<lambda>x. x \<le> t) (timers s);
          later = filter (\<lambda>x. \<not> x \<le> t) (timers s)
      in fold (\<lambda>_. removeChild) due (s\<lparr>now := t, timers := later\<rparr>))"

datatype splash_event = Show | Dispose nat | Elapse nat

fun splash_step :: "splash_event \<Rightarrow> page \<Rightarrow> page" where
  "splash_step Show s = showSplash s"
| "splash_step (Dispose h) s = dispose_handle h s"
| "splash_step (Elapse d) s = elapse d s"

definition splash_run :: "splash_event list \<Rightarrow> page \<Rightarrow> page" where
  "splash_run es s = fold splash_step es s"

text \<open>The number of handles that have not been disposed.\<close>

definition outstanding :: "page \<Rightarrow> nat" where
  "outstanding s = length (filter (\<lambda>b. b) (handles s))"

text \<open>
  A run in which \<^verbatim>\<open>show()\<close> is never called while a scheduled removal is pending.
\<close>

fun well_spaced :: "splash_event list \<Rightarrow> page \<Rightarrow> bool" where
  "well_spaced [] s = True"
| "well_spaced (ev # es) s = ((ev \<noteq> Show \<or> timers s = []) \<and> well_spaced es (splash_step ev s))"

text \<open>What holds of the page along such runs.\<close>

definition splash_inv :: "page \<Rightarrow> bool" where
  "splash_inv s =
     (length (timers s) \<le> 1
      \<and> attached s = (0 < splashCount s \<or> timers s \<noteq> [])
      \<and> (timers s = [] \<or> splashCount s = 0)
      \<and> uncaught s = 0
      \<and> splashCount s = int (outstanding s)
      \<and> (splashCount s = 0 \<or> splash s))"

section \<open>State database plugin\<close>

text \<open>
  Page configuration and URL helpers are collaborators: \<^verbatim>\<open>PageConfig.getBaseUrl()\<close>,
  \<^verbatim>\<open>PageConfig.getOption('pageUrl')\<close>, \<^verbatim>\<open>PageConfig.getWorkspacesUrl()\<close> and
  \<^verbatim>\<open>URLExt.join\<close>.
\<close>

record env =
  getBaseUrl :: string
  pageUrl :: string
  getWorkspacesUrl :: string
  URLExt_join :: "string \<Rightarrow> string \<Rightarrow> string"

text \<open>
  The value a \<^verbatim>\<open>StateDB.DataTransform\<close> carries: \<^verbatim>\<open>{ type: 'cancel', contents: null }\<close> or
  \<^verbatim>\<open>{ type: 'overwrite', contents: data }\<close>.
\<close>

datatype 'd transform = Cancel | Overwrite 'd

text \<open>
  What \<^verbatim>\<open>activate\<close> closes over: the flag \<^verbatim>\<open>resolved\<close>; the \<^verbatim>\<open>PromiseDelegate\<close>
  \<^verbatim>\<open>transform\<close> (the value its promise settled to, and every call of
  \<^verbatim>\<open>transform.resolve\<close> in order); whether \<^verbatim>\<open>disposables\<close> has been disposed, which
  removes the load command and its route rule; whether \<^verbatim>\<open>unload\<close> is connected to
  \<^verbatim>\<open>router.routed\<close>; the workspace ids passed to \<^verbatim>\<open>workspaces.fetch\<close> whose promise has
  not settled; the browser URL; and the console.
\<close>

record 'd statedb =
  resolved :: bool
  transform :: "'d transform option"
  resolve_calls :: "'d transform list"
  disposed :: bool
  connected :: bool
  fetches :: "string list"
  url :: string
  console :: "log list"

text \<open>The state right after \<^verbatim>\<open>activate\<close> returns, with the browser at \<open>u\<close>.\<close>

definition activate :: "string \<Rightarrow> 'd statedb" where
  "activate u = \<lparr>resolved = False, transform = None, resolve_calls = [], disposed = False,
     connected = True, fetches = [], url = u, console = []\<rparr>"

text \<open>
  \<^verbatim>\<open>transform.resolve(v)\<close>: a promise keeps the first value it is resolved with; later
  calls have no effect on it.
\<close>

definition transform_resolve :: "'d transform \<Rightarrow> 'd statedb \<Rightarrow> 'd statedb" where
  "transform_resolve v s =
     s\<lparr>resolve_calls := resolve_calls s @ [v],
       transform := (case transform s of None \<Rightarrow> Some v | Some w \<Rightarrow> Some w)\<rparr>"

definition unload :: "'d statedb \<Rightarrow> 'd statedb" where
  "unload s =
     (let s1 = s\<lparr>disposed := True\<rparr>;
          s2 = s1\<lparr>connected := False\<rparr>
      in if \<not> resolved s2
         then transform_resolve Cancel
                (s2\<lparr>console := console s2 @
                   [ConsoleLog ''No workspace requested. Leaving state database intact.'']\<rparr>)
         else s2)"

text \<open>
  The pattern \<^verbatim>\<open>/^\/workspaces\/(.+)/\<close> applied by \<^verbatim>\<open>String.prototype.match\<close>: \<open>None\<close> is
  the \<^verbatim>\<open>null\<close> result, \<open>Some w\<close> a match whose first group is \<open>w\<close>.  The dot matches
  every character but a line terminator, and \<^verbatim>\<open>+\<close> is greedy.  (Of the line terminators
  only line feed and carriage return exist in \<^typ>\<open>char\<close>.)
\<close>

definition line_terminator :: "char \<Rightarrow> bool" where
  "line_terminator c = (c = CHR 0x0A \<or> c = CHR 0x0D)"

definition match_workspace :: "string \<Rightarrow> string option" where
  "match_workspace p =
     (if take 12 p = ''/workspaces/''
      then (case takeWhile (\<lambda>c. \<not> line_terminator c) (drop 12 p) of
              [] \<Rightarrow> None
            | c # cs \<Rightarrow> Some (c # cs))
      else None)"

text \<open>\<^verbatim>\<open>IRouter.ICommandArgs\<close>; \<open>None\<close> is an absent \<^verbatim>\<open>path\<close>.\<close>

record command_args =
  path :: "string option"

text \<open>\<^verbatim>\<open>args.path || ''\<close>\<close>

definition path_or_empty :: "command_args \<Rightarrow> string" where
  "path_or_empty args = (case path args of None \<Rightarrow> [] | Some p \<Rightarrow> (if p = [] then [] else p))"

text \<open>
  How one run of the load command's \<^verbatim>\<open>execute\<close> ends: it throws the \<^verbatim>\<open>TypeError\<close> of
  indexing \<^verbatim>\<open>null\<close>, it returns from the branch for a missing workspace, or it returns
  the promise of a workspace fetch.
\<close>

datatype load_result = Threw_TypeError | No_workspace | Fetching string

definition loadState_execute ::
  "env \<Rightarrow> command_args \<Rightarrow> 'd statedb \<Rightarrow> load_result \<times> 'd statedb" where
  "loadState_execute e args s =
     (case match_workspace (path_or_empty args) of
        None \<Rightarrow> (Threw_TypeError, s)
      | Some workspace \<Rightarrow>
          (let base = URLExt_join e (getBaseUrl e) (pageUrl e);
               s1 = s\<lparr>url := base\<rparr>;
               s2 = s1\<lparr>resolved := True\<rparr>
           in if workspace = []
              then (No_workspace,
                    transform_resolve Cancel
                      (s2\<lparr>console := console s2 @
                         [ConsoleLog ''No workspace found. Leaving state database intact.'']\<rparr>))
              else (Fetching workspace, s2\<lparr>fetches := fetches s2 @ [workspace]\<rparr>)))"

text \<open>
  The promise of the \<open>i\<close>-th pending \<^verbatim>\<open>workspaces.fetch\<close> settles: \<open>Inr d\<close> with a
  session whose \<^verbatim>\<open>data\<close> is \<open>d\<close>, \<open>Inl r\<close> with a rejection.
\<close>

definition fetch_settled :: "nat \<Rightarrow> reason + 'd \<Rightarrow> 'd statedb \<Rightarrow> 'd statedb" where
  "fetch_settled i outcome s =
     (if i < length (fetches s)
      then (let workspace = fetches s ! i;
                s1 = s\<lparr>fetches := take i (fetches s) @ drop (Suc i) (fetches s)\<rparr>
            in case outcome of
                 Inr d \<Rightarrow> transform_resolve (Overwrite d) s1
               | Inl r \<Rightarrow>
                   transform_resolve Cancel
                     (s1\<lparr>console := console s1 @
                        [ConsoleWarn (''Fetching workspace ('' @ workspace @ '') failed.'') r]\<rparr>))
      else s)"

text \<open>
  What can happen after activation: the load command is invoked through the command
  registry (which has it only until \<^verbatim>\<open>disposables\<close> is disposed), a workspace fetch
  settles, or the router emits \<^verbatim>\<open>routed\<close> (which calls \<^verbatim>\<open>unload\<close> while connected).
\<close>

datatype 'd event = Load command_args | Settle nat "reason + 'd" | Routed

fun step :: "env \<Rightarrow> 'd event \<Rightarrow> 'd statedb \<Rightarrow> 'd statedb" where
  "step e (Load args) s = (if disposed s then s else snd (loadState_execute e args s))"
| "step e (Settle i outcome) s = fetch_settled i outcome s"
| "step e Routed s = (if connected s then unload s else s)"

definition run :: "env \<Rightarrow> 'd event list \<Rightarrow> 'd statedb \<Rightarrow> 'd statedb" where
  "run e es s = fold (step e) es s"

fun is_Load :: "'d event \<Rightarrow> bool" where
  "is_Load (Load args) = True"
| "is_Load (Settle i outcome) = False"
| "is_Load Routed = False"

text \<open>
  An event after which a call of \<^verbatim>\<open>transform.resolve\<close> is due: a routing event, or a
  load on a path the pattern matches.
\<close>

fun resolving :: "'d event \<Rightarrow> bool" where
  "resolving (Load args) = (match_workspace (path_or_empty args) \<noteq> None)"
| "resolving (Settle i outcome) = False"
| "resolving Routed = True"

subsection \<open>The save command\<close>

text \<open>
  What the save command does to its collaborators, in order, and the promise it
  returns.  \<^verbatim>\<open>Time.format\<close>, \<^verbatim>\<open>state.toJSON()\<close> and \<^verbatim>\<open>workspaces.save\<close> are arguments.
\<close>

datatype 'd effect =
    CopyToSystem string
  | ToJSON
  | WorkspaceSave string 'd string
  | Warn string reason

type_synonym ('d, 'a) effectful = "'d effect list \<times> 'a promise"

definition then_e :: "('d, 'a) effectful \<Rightarrow> ('a \<Rightarrow> ('d, 'b) effectful) \<Rightarrow> ('d, 'b) effectful" where
  "then_e x f =
     (case snd x of
        Pending \<Rightarrow> (fst x, Pending)
      | Rejected r \<Rightarrow> (fst x, Rejected r)
      | Fulfilled v \<Rightarrow> (fst x @ fst (f v), snd (f v)))"

definition catch_e :: "('d, 'a) effectful \<Rightarrow> (reason \<Rightarrow> ('d, 'a) effectful) \<Rightarrow> ('d, 'a) effectful" where
  "catch_e x h =
     (case snd x of
        Pending \<Rightarrow> (fst x, Pending)
      | Fulfilled v \<Rightarrow> (fst x, Fulfilled v)
      | Rejected r \<Rightarrow> (fst x @ fst (h r), snd (h r)))"

definition saveState_execute ::
  "env \<Rightarrow> ('t \<Rightarrow> string \<Rightarrow> string) \<Rightarrow> 't \<Rightarrow> 'd promise \<Rightarrow> (string \<Rightarrow> 'd \<Rightarrow> string \<Rightarrow> unit promise)
     \<Rightarrow> ('d, unit) effectful" where
  "saveState_execute e Time_format date toJSON workspaces_save =
     (let fmt = ''YYYYMMDDHHmm-x'';
          ident = Time_format date fmt;
          metadata = ident;
          url = URLExt_join e (getWorkspacesUrl e) ident
      in catch_e
           (then_e ([CopyToSystem url, ToJSON], toJSON)
              (\<lambda>data. ([WorkspaceSave ident data metadata], workspaces_save ident data metadata)))
           (\<lambda>reason. ([Warn ''Saving workspace failed.'' reason], Fulfilled ())))"

subsection \<open>Bookkeeping for runs\<close>

text \<open>
  Calls of \<^verbatim>\<open>transform.resolve\<close> made so far plus calls still to come from pending
  fetches.
\<close>

definition owed :: "'d statedb \<Rightarrow> nat" where
  "owed s = length (resolve_calls s) + length (fetches s)"

text \<open>The promise holds the value of the first call of \<^verbatim>\<open>transform.resolve\<close>, if any.\<close>

definition first_wins :: "'d statedb \<Rightarrow> bool" where
  "first_wins s = (transform s = (case resolve_calls s of [] \<Rightarrow> None | t # ts \<Rightarrow> Some t))"

text \<open>A concrete page configuration and a concrete formatted time stamp, for example runs.\<close>

definition example_env :: env where
  "example_env = \<lparr>getBaseUrl = ''/'', pageUrl = ''lab'', getWorkspacesUrl = ''/lab/workspaces'',
     URLExt_join = (\<lambda>a b. if a \<noteq> [] \<and> last a = CHR ''/'' then a @ b else a @ ''/'' @ b)\<rparr>"

definition example_format :: "nat \<Rightarrow> string \<Rightarrow> string" where
  "example_format d f = (if f = ''YYYYMMDDHHmm-x'' then ''201803151230-1521117000000'' else [])"

section \<open>Properties of the splash screen\<close>

lemma release_count: "splashCount (release s) = max (splashCount s - 1) 0"
  by (simp add: release_def Let_def)

lemma release_nonneg: "0 \<le> splashCount (release s)"
  by (simp add: release_count)

lemma removeChild_count: "splashCount (removeChild s) = splashCount s"
  by (simp add: removeChild_def)

lemma fold_removeChild_count: "splashCount (fold (\<lambda>_. removeChild) xs s) = splashCount s"
  by (induction xs arbitrary: s) (simp_all add: removeChild_count)

lemma elapse_count: "splashCount (elapse d s) = splashCount s"
  by (simp add: elapse_def Let_def fold_removeChild_count)

lemma removeChild_handles: "handles (removeChild s) = handles s"
  by (simp add: removeChild_def)

lemma fold_removeChild_handles: "handles (fold (\<lambda>_. removeChild) xs s) = handles s"
  by (induction xs arbitrary: s) (simp_all add: removeChild_handles)

lemma elapse_handles: "handles (elapse d s) = handles s"
  by (simp add: elapse_def Let_def fold_removeChild_handles)

lemma filter_update_False:
  "h < length bs \<Longrightarrow> bs ! h \<Longrightarrow> Suc (length (filter (\<lambda>b. b) (bs[h := False]))) = length (filter (\<lambda>b. b) bs)"
proof (induction bs arbitrary: h)
  case Nil
  then show ?case by simp
next
  case (Cons b bs)
  then show ?case by (cases h) auto
qed

lemma step_count_outstanding:
  "splashCount s = int (outstanding s) \<Longrightarrow> splashCount (splash_step ev s) = int (outstanding (splash_step ev s))"
proof (cases ev)
  case Show
  then show ?thesis if "splashCount s = int (outstanding s)"
    using that by (simp add: showSplash_def outstanding_def Let_def)
next
  case (Dispose h)
  show ?thesis if a: "splashCount s = int (outstanding s)"
  proof (cases "h < length (handles s) \<and> handles s ! h")
    case True
    then have "Suc (outstanding (s\<lparr>handles := (handles s)[h := False]\<rparr>)) = outstanding s"
      by (simp add: outstanding_def filter_update_False)
    moreover have "outstanding (release (s\<lparr>handles := (handles s)[h := False]\<rparr>))
        = outstanding (s\<lparr>handles := (handles s)[h := False]\<rparr>)"
      by (simp add: release_def Let_def outstanding_def)
    moreover have "splashCount (release (s\<lparr>handles := (handles s)[h := False]\<rparr>))
        = max (splashCount s - 1) 0"
      by (simp add: release_count)
    ultimately show ?thesis
      using a True Dispose by (simp add: dispose_handle_def)
  next
    case False
    with a Dispose show ?thesis by (auto simp add: dispose_handle_def)
  qed
next
  case (Elapse d)
  then show ?thesis if "splashCount s = int (outstanding s)"
    using that by (simp add: elapse_count elapse_handles outstanding_def)
qed

lemma run_count_outstanding:
  "splashCount s = int (outstanding s) \<Longrightarrow> splashCount (splash_run es s) = int (outstanding (splash_run es s))"
  unfolding splash_run_def
  by (induction es arbitrary: s) (simp_all add: step_count_outstanding)

lemma init_count: "splashCount page_init = int (outstanding page_init)"
  by (simp add: page_init_def outstanding_def)

lemma fold_removeChild_splash: "splash (fold (\<lambda>_. removeChild) xs s) = splash s"
  by (induction xs arbitrary: s) (simp_all add: removeChild_def)

lemma elapse_splash: "splash (elapse d s) = splash s"
  by (simp add: elapse_def Let_def fold_removeChild_splash)

lemma step_element_exists:
  "handles s = [] \<or> splash s \<Longrightarrow> handles (splash_step ev s) = [] \<or> splash (splash_step ev s)"
proof (cases ev)
  case Show
  then show ?thesis by (simp add: showSplash_def Let_def)
next
  case (Dispose h)
  then show ?thesis if "handles s = [] \<or> splash s"
    using that by (auto simp add: dispose_handle_def release_def Let_def)
next
  case (Elapse d)
  then show ?thesis if "handles s = [] \<or> splash s"
    using that by (simp add: elapse_handles elapse_splash)
qed

lemma run_element_exists:
  "handles s = [] \<or> splash s \<Longrightarrow> handles (splash_run es s) = [] \<or> splash (splash_run es s)"
  unfolding splash_run_def
proof (induction es arbitrary: s)
  case Nil
  then show ?case by simp
next
  case (Cons ev es)
  from step_element_exists [OF Cons.prems] Cons.IH [of "splash_step ev s"]
  show ?case by simp
qed

lemma run_snoc: "splash_run (es @ [ev]) s = splash_step ev (splash_run es s)"
  by (simp add: splash_run_def)

lemma live_handle_outstanding:
  "h < length (handles s) \<Longrightarrow> handles s ! h \<Longrightarrow> 0 < outstanding s"
proof -
  assume "h < length (handles s)" and "handles s ! h"
  then have "Suc (length (filter (\<lambda>b. b) ((handles s)[h := False]))) = outstanding s"
    by (simp add: outstanding_def filter_update_False)
  then show ?thesis by linarith
qed

lemma dispose_live:
  assumes "h < length (handles s)" and "handles s ! h" and "splash s"
    and "splashCount s = int (outstanding s)"
  shows "splashCount (dispose_handle h s) = splashCount s - 1
    \<and> splashCount (dispose_handle h s) = max (splashCount s - 1) 0
    \<and> handles (dispose_handle h s) = (handles s)[h := False]
    \<and> attached (dispose_handle h s) = attached s
    \<and> (if splashCount (dispose_handle h s) = 0
        then splash_fade (dispose_handle h s) \<and> timers (dispose_handle h s) = timers s @ [now s + 500]
        else splash_fade (dispose_handle h s) = splash_fade s \<and> timers (dispose_handle h s) = timers s)"
proof -
  from assms(1,2) have "0 < outstanding s" by (rule live_handle_outstanding)
  with assms(4) have "0 < splashCount s" by simp
  with assms(1,2,3) show ?thesis
    by (simp add: dispose_handle_def release_def Let_def)
qed

text \<open>
  C8.  For every sequence of \<^verbatim>\<open>show()\<close> calls, handle disposals and time steps, the
  splash counter is never negative; it equals the number of handles not yet disposed.
  Disposing, after any such sequence, a handle that has not been disposed takes the
  counter from \<open>n\<close> to \<open>max (n - 1) 0\<close>, which is \<open>n - 1\<close>; exactly when the new count
  is zero the fade class is added and one removal is scheduled 500 ms from now, and
  otherwise the class and the timers stay as they are; the overlay is not detached by
  the disposal itself.  Disposing a handle a second time, or one never given out,
  changes nothing.  The callback alone, run in any state, floors the count at zero.
\<close>

theorem splash_count_never_negative:
  "0 \<le> splashCount (splash_run es page_init)
   \<and> splashCount (splash_run es page_init) = int (outstanding (splash_run es page_init))
   \<and> (if h < length (handles (splash_run es page_init)) \<and> handles (splash_run es page_init) ! h
       then splashCount (splash_run (es @ [Dispose h]) page_init)
              = max (splashCount (splash_run es page_init) - 1) 0
          \<and> splashCount (splash_run (es @ [Dispose h]) page_init)
              = splashCount (splash_run es page_init) - 1
          \<and> handles (splash_run (es @ [Dispose h]) page_init)
              = (handles (splash_run es page_init))[h := False]
          \<and> attached (splash_run (es @ [Dispose h]) page_init) = attached (splash_run es page_init)
          \<and> (if splashCount (splash_run (es @ [Dispose h]) page_init) = 0
              then splash_fade (splash_run (es @ [Dispose h]) page_init)
                 \<and> timers (splash_run (es @ [Dispose h]) page_init)
                     = timers (splash_run es page_init) @ [now (splash_run es page_init) + 500]
              else splash_fade (splash_run (es @ [Dispose h]) page_init)
                     = splash_fade (splash_run es page_init)
                 \<and> timers (splash_run (es @ [Dispose h]) page_init) = timers (splash_run es page_init))
       else splash_run (es @ [Dispose h]) page_init = splash_run es page_init)
   \<and> splashCount (release s) = max (splashCount s - 1) 0
   \<and> (if splashCount (release s) = 0 \<and> splash s
       then splash_fade (release s) \<and> timers (release s) = timers s @ [now s + 500]
       else splash_fade (release s) = splash_fade s \<and> timers (release s) = timers s)"
proof -
  let ?s = "splash_run es page_init"
  have c: "splashCount ?s = int (outstanding ?s)"
    by (rule run_count_outstanding [OF init_count])
  have x: "handles ?s = [] \<or> splash ?s"
    by (rule run_element_exists) (simp add: page_init_def)
  have d: "splash_run (es @ [Dispose h]) page_init = dispose_handle h ?s"
    by (simp add: run_snoc)
  have live: "splashCount (dispose_handle h ?s) = splashCount ?s - 1
    \<and> splashCount (dispose_handle h ?s) = max (splashCount ?s - 1) 0
    \<and> handles (dispose_handle h ?s) = (handles ?s)[h := False]
    \<and> attached (dispose_handle h ?s) = attached ?s
    \<and> (if splashCount (dispose_handle h ?s) = 0
        then splash_fade (dispose_handle h ?s) \<and> timers (dispose_handle h ?s) = timers ?s @ [now ?s + 500]
        else splash_fade (dispose_handle h ?s) = splash_fade ?s \<and> timers (dispose_handle h ?s) = timers ?s)"
    if "h < length (handles ?s)" and "handles ?s ! h"
  proof -
    from that x have "splash ?s" by auto
    with that c show ?thesis by (intro dispose_live)
  qed
  have dead: "dispose_handle h ?s = ?s" if "\<not> (h < length (handles ?s) \<and> handles ?s ! h)"
    using that by (auto simp add: dispose_handle_def)
  have nonneg: "0 \<le> splashCount ?s"
    using c by simp
  have rel1: "splashCount (release s) = max (splashCount s - 1) 0"
    by (simp add: release_def Let_def)
  have rel2: "if splashCount (release s) = 0 \<and> splash s
       then splash_fade (release s) \<and> timers (release s) = timers s @ [now s + 500]
       else splash_fade (release s) = splash_fade s \<and> timers (release s) = timers s"
    by (simp add: release_def Let_def)
  have disp: "if h < length (handles ?s) \<and> handles ?s ! h
       then splashCount (splash_run (es @ [Dispose h]) page_init) = max (splashCount ?s - 1) 0
          \<and> splashCount (splash_run (es @ [Dispose h]) page_init) = splashCount ?s - 1
          \<and> handles (splash_run (es @ [Dispose h]) page_init) = (handles ?s)[h := False]
          \<and> attached (splash_run (es @ [Dispose h]) page_init) = attached ?s
          \<and> (if splashCount (splash_run (es @ [Dispose h]) page_init) = 0
              then splash_fade (splash_run (es @ [Dispose h]) page_init)
                 \<and> timers (splash_run (es @ [Dispose h]) page_init) = timers ?s @ [now ?s + 500]
              else splash_fade (splash_run (es @ [Dispose h]) page_init) = splash_fade ?s
                 \<and> timers (splash_run (es @ [Dispose h]) page_init) = timers ?s)
       else splash_run (es @ [Dispose h]) page_init = ?s"
  proof (cases "h < length (handles ?s) \<and> handles ?s ! h")
    case True
    then have "h < length (handles ?s)" and "handles ?s ! h" by simp_all
    from live [OF this] show ?thesis
      unfolding d if_P [OF True] by blast
  next
    case False
    from dead [OF False] show ?thesis
      unfolding d if_not_P [OF False] .
  qed
  show ?thesis
    by (intro conjI) (fact nonneg, fact c, fact disp, fact rel1, fact rel2)
qed

theorem splash_count_never_negative_witness:
  "splashCount (splash_run [Show, Show] page_init) = 2
   \<and> splashCount (splash_run [Show, Show, Dispose 0] page_init) = 1
   \<and> \<not> splash_fade (splash_run [Show, Show, Dispose 0] page_init)
   \<and> timers (splash_run [Show, Show, Dispose 0] page_init) = []
   \<and> splashCount (splash_run [Show, Show, Dispose 0, Dispose 1] page_init) = 0
   \<and> splash_fade (splash_run [Show, Show, Dispose 0, Dispose 1] page_init)
   \<and> timers (splash_run [Show, Show, Dispose 0, Dispose 1] page_init) = [500]
   \<and> attached (splash_run [Show, Show, Dispose 0, Dispose 1] page_init)
   \<and> splash_run [Show, Show, Dispose 0, Dispose 1, Dispose 1] page_init
       = splash_run [Show, Show, Dispose 0, Dispose 1] page_init"
  using splash_count_never_negative [of "[Show, Show]" 0 page_init]
    splash_count_never_negative [of "[Show, Show, Dispose 0]" 1 page_init]
    splash_count_never_negative [of "[Show, Show, Dispose 0, Dispose 1]" 1 page_init]
  by (simp add: splash_run_def page_init_def showSplash_def dispose_handle_def release_def
      outstanding_def Let_def)

text \<open>
  C2.  A run in which the overlay is detached although a handle is outstanding:
  \<^verbatim>\<open>show()\<close>, dispose (count 0, removal due at 500 ms), 100 ms later \<^verbatim>\<open>show()\<close> again
  (count 1, fade class removed, element re-appended), then the removal scheduled by the
  first disposal fires.  The pending timer is not cleared by \<^verbatim>\<open>showSplash\<close>.
\<close>

theorem splash_removed_while_count_positive:
  "splashCount (splash_run [Show, Dispose 0, Elapse 100, Show, Elapse 400] page_init) = 1
   \<and> outstanding (splash_run [Show, Dispose 0, Elapse 100, Show, Elapse 400] page_init) = 1
   \<and> \<not> attached (splash_run [Show, Dispose 0, Elapse 100, Show, Elapse 400] page_init)
   \<and> \<not> splash_fade (splash_run [Show, Dispose 0, Elapse 100, Show, Elapse 400] page_init)
   \<and> timers (splash_run [Show, Dispose 0, Elapse 100, Show, Elapse 400] page_init) = []"
  by (simp add: splash_run_def page_init_def showSplash_def dispose_handle_def release_def
      elapse_def removeChild_def outstanding_def Let_def)

lemma inv_show: "splash_inv s \<Longrightarrow> timers s = [] \<Longrightarrow> splash_inv (showSplash s)"
  by (simp add: splash_inv_def showSplash_def outstanding_def Let_def)

lemma inv_dispose: "splash_inv s \<Longrightarrow> splash_inv (dispose_handle h s)"
proof (cases "h < length (handles s) \<and> handles s ! h")
  case False
  then show ?thesis if "splash_inv s" using that by (auto simp add: dispose_handle_def)
next
  case True
  assume inv: "splash_inv s"
  from True have pos: "0 < outstanding s" using live_handle_outstanding [of h s] by blast
  from True have out: "Suc (outstanding (s\<lparr>handles := (handles s)[h := False]\<rparr>)) = outstanding s"
    by (simp add: outstanding_def filter_update_False)
  from inv pos have c: "0 < splashCount s" "timers s = []" "attached s" "splash s"
    by (auto simp add: splash_inv_def)
  show ?thesis
  proof (cases "splashCount s = 1")
    case one: True
    with inv c out True show ?thesis
      by (simp add: dispose_handle_def release_def Let_def splash_inv_def outstanding_def)
  next
    case more: False
    with c have "1 < splashCount s" by simp
    with inv c out True show ?thesis
      by (simp add: dispose_handle_def release_def Let_def splash_inv_def outstanding_def)
  qed
qed

lemma inv_elapse: "splash_inv s \<Longrightarrow> splash_inv (elapse d s)"
proof -
  assume inv: "splash_inv s"
  then consider "timers s = []" | t where "timers s = [t]"
    by (cases "timers s") (auto simp add: splash_inv_def)
  then show ?thesis
  proof cases
    case 1
    with inv show ?thesis by (auto simp add: elapse_def Let_def splash_inv_def outstanding_def)
  next
    case 2
    with inv show ?thesis
      by (auto simp add: elapse_def Let_def splash_inv_def outstanding_def removeChild_def)
  qed
qed

lemma inv_run: "splash_inv s \<Longrightarrow> well_spaced es s \<Longrightarrow> splash_inv (splash_run es s)"
proof (induction es arbitrary: s)
  case Nil
  then show ?case by (simp add: splash_run_def)
next
  case (Cons ev es)
  have "splash_inv (splash_step ev s)"
  proof (cases ev)
    case Show
    with Cons.prems show ?thesis by (simp add: inv_show)
  next
    case (Dispose h)
    with Cons.prems show ?thesis by (simp add: inv_dispose)
  next
    case (Elapse d)
    with Cons.prems show ?thesis by (simp add: inv_elapse)
  qed
  with Cons.IH [of "splash_step ev s"] Cons.prems(2) show ?case by (simp add: splash_run_def)
qed

text \<open>
  When \<^verbatim>\<open>show()\<close> is never called while a removal is pending, the overlay is attached
  exactly when the counter is positive or a removal is still pending (the fade delay),
  and no removal callback throws.
\<close>

theorem splash_attached_iff_counted:
  assumes "well_spaced es page_init"
  shows "attached (splash_run es page_init)
      = (0 < splashCount (splash_run es page_init) \<or> timers (splash_run es page_init) \<noteq> [])
    \<and> uncaught (splash_run es page_init) = 0"
proof -
  have "splash_inv page_init"
    by (simp add: splash_inv_def page_init_def outstanding_def)
  from inv_run [OF this assms] show ?thesis by (simp add: splash_inv_def)
qed

theorem splash_attached_iff_counted_witness:
  "well_spaced [Show, Show, Dispose 0, Dispose 1, Elapse 200] page_init
   \<and> attached (splash_run [Show, Show, Dispose 0, Dispose 1, Elapse 200] page_init)
   \<and> splashCount (splash_run [Show, Show, Dispose 0, Dispose 1, Elapse 200] page_init) = 0
   \<and> timers (splash_run [Show, Show, Dispose 0, Dispose 1, Elapse 200] page_init) = [500]
   \<and> \<not> attached (splash_run [Show, Show, Dispose 0, Dispose 1, Elapse 200, Elapse 300] page_init)"
proof -
  have a: "well_spaced [Show, Show, Dispose 0, Dispose 1, Elapse 200] page_init"
    by (simp add: page_init_def showSplash_def dispose_handle_def release_def elapse_def Let_def)
  have b: "well_spaced [Show, Show, Dispose 0, Dispose 1, Elapse 200, Elapse 300] page_init"
    by (simp add: page_init_def showSplash_def dispose_handle_def release_def elapse_def Let_def)
  have c: "splashCount (splash_run [Show, Show, Dispose 0, Dispose 1, Elapse 200] page_init) = 0
     \<and> timers (splash_run [Show, Show, Dispose 0, Dispose 1, Elapse 200] page_init) = [500]
     \<and> splashCount (splash_run [Show, Show, Dispose 0, Dispose 1, Elapse 200, Elapse 300] page_init) = 0
     \<and> timers (splash_run [Show, Show, Dispose 0, Dispose 1, Elapse 200, Elapse 300] page_init) = []"
    by (simp add: splash_run_def page_init_def showSplash_def dispose_handle_def release_def
        elapse_def removeChild_def Let_def)
  show ?thesis
    using a c splash_attached_iff_counted [OF a] splash_attached_iff_counted [OF b]
    by simp
qed

section \<open>Properties of the settings connector\<close>

text \<open>
  C5.  For every id, a fulfilled \<^verbatim>\<open>SettingsConnector.fetch(id)\<close> carries the requested id
  in its \<^verbatim>\<open>id\<close> field, whatever id the settings service returned, the other fields being
  those the service returned; a rejection of the service's promise is the rejection of
  the connector's promise, and the connector rejects in no other case.
\<close>

theorem fetch_returns_requested_id:
  "(\<forall>d. settings_fetch ident = Fulfilled d \<longrightarrow>
      SettingsConnector_fetch settings_fetch ident = Fulfilled (d\<lparr>plugin_id := ident\<rparr>))
   \<and> (\<forall>d'. SettingsConnector_fetch settings_fetch ident = Fulfilled d' \<longrightarrow> plugin_id d' = ident)
   \<and> (\<forall>r. settings_fetch ident = Rejected r \<longrightarrow>
      SettingsConnector_fetch settings_fetch ident = Rejected r)
   \<and> (\<forall>r. SettingsConnector_fetch settings_fetch ident = Rejected r \<longrightarrow>
      settings_fetch ident = Rejected r)"
  by (auto simp add: SettingsConnector_fetch_def promise_then_def split: promise.splits)

theorem fetch_returns_requested_id_witness:
  "SettingsConnector_fetch (\<lambda>i. Fulfilled \<lparr>plugin_id = ''PKG:Plugin'', plugin_rest = ()\<rparr>) ''pkg:plugin''
     = Fulfilled \<lparr>plugin_id = ''pkg:plugin'', plugin_rest = ()\<rparr>
   \<and> SettingsConnector_fetch (\<lambda>i. Rejected ''404'' :: unit plugin promise) ''pkg:plugin'' = Rejected ''404''"
  using fetch_returns_requested_id [of "\<lambda>i. Fulfilled \<lparr>plugin_id = ''PKG:Plugin'', plugin_rest = ()\<rparr>" "''pkg:plugin''"]
    fetch_returns_requested_id [of "\<lambda>i. Rejected ''404'' :: unit plugin promise" "''pkg:plugin''"]
  by simp

section \<open>Properties of the theme command\<close>

text \<open>
  C6.  Executing the change-theme command with the manager's current theme leaves the
  manager as it is (\<^verbatim>\<open>setTheme\<close> is not applied); with any other theme argument the
  result is that of \<^verbatim>\<open>setTheme\<close> on that argument.  For a string argument, "equal to the
  current theme" means that the manager has a current theme and it is that string.
\<close>

theorem changeTheme_execute_noop_or_delegate:
  "(strict_eq (theme args) (js_of_theme (manager_theme m)) \<longrightarrow>
      changeTheme_execute manager_theme setTheme args m = m)
   \<and> (\<not> strict_eq (theme args) (js_of_theme (manager_theme m)) \<longrightarrow>
      changeTheme_execute manager_theme setTheme args m = setTheme (theme args) m)
   \<and> (\<forall>t. strict_eq (JString t) (js_of_theme (manager_theme m)) = (manager_theme m = Some t))"
  by (cases "manager_theme m") (auto simp add: changeTheme_execute_def strict_eq_def)

theorem changeTheme_execute_witness:
  "changeTheme_execute current_theme record_setTheme
      \<lparr>theme = JString ''Dark'', isPalette = JBool False\<rparr>
      \<lparr>current_theme = Some ''Dark'', setTheme_calls = []\<rparr>
     = \<lparr>current_theme = Some ''Dark'', setTheme_calls = []\<rparr>
   \<and> changeTheme_execute current_theme record_setTheme
      \<lparr>theme = JString ''Light'', isPalette = JBool False\<rparr>
      \<lparr>current_theme = Some ''Dark'', setTheme_calls = []\<rparr>
     = \<lparr>current_theme = Some ''Dark'', setTheme_calls = [JString ''Light'']\<rparr>"
  using changeTheme_execute_noop_or_delegate [of "\<lparr>theme = JString ''Dark'', isPalette = JBool False\<rparr>"
      current_theme "\<lparr>current_theme = Some ''Dark'', setTheme_calls = []\<rparr>" record_setTheme]
    changeTheme_execute_noop_or_delegate [of "\<lparr>theme = JString ''Light'', isPalette = JBool False\<rparr>"
      current_theme "\<lparr>current_theme = Some ''Dark'', setTheme_calls = []\<rparr>" record_setTheme]
  by (simp add: strict_eq_def record_setTheme_def)

text \<open>
  C7.  The label is the theme name when \<^verbatim>\<open>isPalette\<close> is \<^verbatim>\<open>false\<close> and
  \<^verbatim>\<open>Use <theme> Theme\<close> when it is \<^verbatim>\<open>true\<close>; the command is toggled exactly when the
  argument's theme equals the manager's current theme.
\<close>

theorem changeTheme_label_and_toggle:
  "(isPalette args = JBool False \<longrightarrow> changeTheme_label args = theme args)
   \<and> (\<forall>t. isPalette args = JBool True \<and> theme args = JString t \<longrightarrow>
        changeTheme_label args = JString (''Use '' @ t @ '' Theme''))
   \<and> (\<forall>t. theme args = JString t \<longrightarrow>
        changeTheme_isToggled manager_theme args = (manager_theme = Some t))
   \<and> changeTheme_isToggled manager_theme args = (theme args = js_of_theme manager_theme)"
  by (cases manager_theme) (auto simp add: changeTheme_label_def changeTheme_isToggled_def strict_eq_def Let_def)

theorem changeTheme_label_and_toggle_witness:
  "changeTheme_label \<lparr>theme = JString ''JupyterLab Dark'', isPalette = JBool False\<rparr> = JString ''JupyterLab Dark''
   \<and> changeTheme_label \<lparr>theme = JString ''JupyterLab Dark'', isPalette = JBool True\<rparr>
       = JString ''Use JupyterLab Dark Theme''
   \<and> changeTheme_isToggled (Some ''JupyterLab Dark'') \<lparr>theme = JString ''JupyterLab Dark'', isPalette = JBool True\<rparr>
   \<and> \<not> changeTheme_isToggled (Some ''JupyterLab Light'') \<lparr>theme = JString ''JupyterLab Dark'', isPalette = JBool True\<rparr>"
  using changeTheme_label_and_toggle [of "\<lparr>theme = JString ''JupyterLab Dark'', isPalette = JBool False\<rparr>" "Some ''JupyterLab Dark''"]
    changeTheme_label_and_toggle [of "\<lparr>theme = JString ''JupyterLab Dark'', isPalette = JBool True\<rparr>" "Some ''JupyterLab Dark''"]
    changeTheme_label_and_toggle [of "\<lparr>theme = JString ''JupyterLab Dark'', isPalette = JBool True\<rparr>" "Some ''JupyterLab Light''"]
  by simp

section \<open>Properties of the state database plugin\<close>

subsection \<open>The load command\<close>

lemma match_workspace_nonempty: "match_workspace p = Some w \<Longrightarrow> w \<noteq> []"
  by (auto simp add: match_workspace_def split: if_splits list.splits)

lemma match_workspace_empty: "match_workspace [] = None"
  by (simp add: match_workspace_def)

text \<open>
  C10.  Run on a path the pattern does not match (the empty and the absent path among
  them), the load command throws before it changes anything.  On a path that matches,
  the extracted workspace id is not empty and the command goes on to fetch it; the
  branch for a missing workspace is never taken.
\<close>

theorem loadState_throws_without_match:
  "(match_workspace (path_or_empty args) = None \<longrightarrow>
      loadState_execute e args s = (Threw_TypeError, s))
   \<and> (path args = None \<or> path args = Some [] \<longrightarrow>
      loadState_execute e args s = (Threw_TypeError, s))
   \<and> (\<forall>w. match_workspace (path_or_empty args) = Some w \<longrightarrow>
      w \<noteq> [] \<and> fst (loadState_execute e args s) = Fetching w)
   \<and> fst (loadState_execute e args s) \<noteq> No_workspace"
proof -
  have a: "match_workspace (path_or_empty args) = None \<Longrightarrow>
      loadState_execute e args s = (Threw_TypeError, s)"
    by (simp add: loadState_execute_def)
  have b: "path args = None \<or> path args = Some [] \<Longrightarrow> match_workspace (path_or_empty args) = None"
    by (auto simp add: path_or_empty_def match_workspace_empty)
  have c: "match_workspace (path_or_empty args) = Some w \<Longrightarrow>
      w \<noteq> [] \<and> fst (loadState_execute e args s) = Fetching w" for w
    using match_workspace_nonempty [of "path_or_empty args" w]
    by (simp add: loadState_execute_def Let_def)
  have d: "fst (loadState_execute e args s) \<noteq> No_workspace"
  proof (cases "match_workspace (path_or_empty args)")
    case None
    with a show ?thesis by simp
  next
    case (Some w)
    with c show ?thesis by simp
  qed
  from b have b': "path args = None \<or> path args = Some [] \<Longrightarrow> loadState_execute e args s = (Threw_TypeError, s)"
    using a by blast
  show ?thesis
    using a b' c d by (intro conjI impI allI) simp_all
qed

theorem loadState_throws_without_match_witness:
  "loadState_execute example_env \<lparr>path = Some ''/''\<rparr> (activate ''/lab'' :: unit statedb)
     = (Threw_TypeError, activate ''/lab'')
   \<and> loadState_execute example_env \<lparr>path = None\<rparr> (activate ''/lab'' :: unit statedb)
     = (Threw_TypeError, activate ''/lab'')
   \<and> fst (loadState_execute example_env \<lparr>path = Some ''/workspaces/abc''\<rparr> (activate ''/lab'' :: unit statedb))
     = Fetching ''abc''"
  using loadState_throws_without_match [of "\<lparr>path = Some ''/''\<rparr>" example_env "activate ''/lab'' :: unit statedb"]
    loadState_throws_without_match [of "\<lparr>path = None\<rparr>" example_env "activate ''/lab'' :: unit statedb"]
    loadState_throws_without_match [of "\<lparr>path = Some ''/workspaces/abc''\<rparr>" example_env "activate ''/lab'' :: unit statedb"]
  by (simp add: path_or_empty_def match_workspace_def line_terminator_def)

lemma match_abc: "match_workspace ''/workspaces/abc'' = Some ''abc''"
  by (simp add: match_workspace_def line_terminator_def)

lemma load_abc:
  "loadState_execute e \<lparr>path = Some ''/workspaces/abc''\<rparr> s =
     (Fetching ''abc'',
      s\<lparr>url := URLExt_join e (getBaseUrl e) (pageUrl e), resolved := True,
        fetches := fetches s @ [''abc'']\<rparr>)"
  by (simp add: loadState_execute_def path_or_empty_def match_abc Let_def)

lemma routed_after_load:
  assumes "resolved t"
  shows "resolved (step e Routed t) \<and> transform (step e Routed t) = transform t
    \<and> resolve_calls (step e Routed t) = resolve_calls t
    \<and> fetches (step e Routed t) = fetches t \<and> console (step e Routed t) = console t
    \<and> url (step e Routed t) = url t"
  using assms by (simp add: unload_def Let_def)

lemma run_routed_after_load:
  "resolved t \<Longrightarrow> \<forall>ev \<in> set mid. ev = Routed \<Longrightarrow>
     resolved (run e mid t) \<and> transform (run e mid t) = transform t
     \<and> resolve_calls (run e mid t) = resolve_calls t
     \<and> fetches (run e mid t) = fetches t \<and> console (run e mid t) = console t
     \<and> url (run e mid t) = url t"
proof (induction mid arbitrary: t)
  case Nil
  then show ?case by (simp add: run_def)
next
  case (Cons ev mid)
  then have ev: "ev = Routed" by simp
  from Cons.prems(1) have st: "resolved (step e Routed t) \<and> transform (step e Routed t) = transform t
    \<and> resolve_calls (step e Routed t) = resolve_calls t
    \<and> fetches (step e Routed t) = fetches t \<and> console (step e Routed t) = console t
    \<and> url (step e Routed t) = url t"
    by (rule routed_after_load)
  from Cons.prems(2) have "\<forall>ev \<in> set mid. ev = Routed" by simp
  with st Cons.IH [of "step e Routed t"] ev show ?case by (simp add: run_def)
qed

text \<open>
  C3.  While the load command is registered and the transform is pending, executing it
  with path \<^verbatim>\<open>/workspaces/abc\<close> sets \<^verbatim>\<open>resolved\<close> and requests workspace \<^verbatim>\<open>abc\<close>.
  The transform stays pending through any routing events that follow (\<^verbatim>\<open>unload\<close> sees
  \<^verbatim>\<open>resolved\<close> and makes no call).  When the fetch is then fulfilled with data \<open>d\<close>
  the transform resolves to \<open>Overwrite d\<close> by a single call and nothing is logged; when
  it is rejected the transform resolves to \<open>Cancel\<close> by a single call and one warning
  is written to the console.
\<close>

theorem load_workspace_abc:
  assumes "\<not> disposed s" and "transform s = None" and "\<forall>ev \<in> set mid. ev = Routed"
  shows "fst (loadState_execute e \<lparr>path = Some ''/workspaces/abc''\<rparr> s) = Fetching ''abc''
    \<and> fetches (step e (Load \<lparr>path = Some ''/workspaces/abc''\<rparr>) s) = fetches s @ [''abc'']
    \<and> resolved (step e (Load \<lparr>path = Some ''/workspaces/abc''\<rparr>) s)
    \<and> transform (step e (Load \<lparr>path = Some ''/workspaces/abc''\<rparr>) s) = None
    \<and> transform (run e mid (step e (Load \<lparr>path = Some ''/workspaces/abc''\<rparr>) s)) = None
    \<and> resolve_calls (run e mid (step e (Load \<lparr>path = Some ''/workspaces/abc''\<rparr>) s)) = resolve_calls s
    \<and> fetches (run e mid (step e (Load \<lparr>path = Some ''/workspaces/abc''\<rparr>) s)) = fetches s @ [''abc'']
    \<and> transform (step e (Settle (length (fetches s)) (Inr d))
          (run e mid (step e (Load \<lparr>path = Some ''/workspaces/abc''\<rparr>) s))) = Some (Overwrite d)
    \<and> resolve_calls (step e (Settle (length (fetches s)) (Inr d))
          (run e mid (step e (Load \<lparr>path = Some ''/workspaces/abc''\<rparr>) s))) = resolve_calls s @ [Overwrite d]
    \<and> console (step e (Settle (length (fetches s)) (Inr d))
          (run e mid (step e (Load \<lparr>path = Some ''/workspaces/abc''\<rparr>) s))) = console s
    \<and> transform (step e (Settle (length (fetches s)) (Inl r))
          (run e mid (step e (Load \<lparr>path = Some ''/workspaces/abc''\<rparr>) s))) = Some Cancel
    \<and> resolve_calls (step e (Settle (length (fetches s)) (Inl r))
          (run e mid (step e (Load \<lparr>path = Some ''/workspaces/abc''\<rparr>) s))) = resolve_calls s @ [Cancel]
    \<and> console (step e (Settle (length (fetches s)) (Inl r))
          (run e mid (step e (Load \<lparr>path = Some ''/workspaces/abc''\<rparr>) s)))
        = console s @ [ConsoleWarn ''Fetching workspace (abc) failed.'' r]"
proof -
  let ?t = "step e (Load \<lparr>path = Some ''/workspaces/abc''\<rparr>) s"
  have t: "?t = s\<lparr>url := URLExt_join e (getBaseUrl e) (pageUrl e), resolved := True,
        fetches := fetches s @ [''abc'']\<rparr>"
    using assms(1) by (simp add: load_abc)
  then have rt: "resolved ?t" by simp
  from run_routed_after_load [OF rt assms(3), of e]
  have m: "transform (run e mid ?t) = transform ?t" "resolve_calls (run e mid ?t) = resolve_calls ?t"
    "fetches (run e mid ?t) = fetches ?t" "console (run e mid ?t) = console ?t"
    by simp_all
  have f: "fst (loadState_execute e \<lparr>path = Some ''/workspaces/abc''\<rparr> s) = Fetching ''abc''"
    by (simp add: load_abc)
  have t1: "fetches ?t = fetches s @ [''abc'']" "resolved ?t" "transform ?t = None"
    "resolve_calls ?t = resolve_calls s" "console ?t = console s"
    using assms(2) unfolding t by simp_all
  have ok: "transform (step e (Settle (length (fetches s)) (Inr d)) (run e mid ?t)) = Some (Overwrite d)
     \<and> resolve_calls (step e (Settle (length (fetches s)) (Inr d)) (run e mid ?t)) = resolve_calls s @ [Overwrite d]
     \<and> console (step e (Settle (length (fetches s)) (Inr d)) (run e mid ?t)) = console s"
    using m t1 by (simp add: fetch_settled_def transform_resolve_def Let_def)
  have bad: "transform (step e (Settle (length (fetches s)) (Inl r)) (run e mid ?t)) = Some Cancel
     \<and> resolve_calls (step e (Settle (length (fetches s)) (Inl r)) (run e mid ?t)) = resolve_calls s @ [Cancel]
     \<and> console (step e (Settle (length (fetches s)) (Inl r)) (run e mid ?t))
        = console s @ [ConsoleWarn ''Fetching workspace (abc) failed.'' r]"
    using m t1 by (simp add: fetch_settled_def transform_resolve_def Let_def)
  from f t1 m ok bad show ?thesis by simp
qed

theorem load_workspace_abc_witness:
  "\<not> disposed (activate ''/lab/workspaces/abc'' :: nat statedb)
   \<and> transform (activate ''/lab/workspaces/abc'' :: nat statedb) = None
   \<and> transform (run example_env [Load \<lparr>path = Some ''/workspaces/abc''\<rparr>, Routed]
        (activate ''/lab/workspaces/abc'' :: nat statedb)) = None
   \<and> transform (run example_env [Load \<lparr>path = Some ''/workspaces/abc''\<rparr>, Routed, Settle 0 (Inr 7)]
        (activate ''/lab/workspaces/abc'' :: nat statedb)) = Some (Overwrite 7)
   \<and> transform (run example_env [Load \<lparr>path = Some ''/workspaces/abc''\<rparr>, Routed, Settle 0 (Inl ''404'')]
        (activate ''/lab/workspaces/abc'' :: nat statedb)) = Some Cancel
   \<and> console (run example_env [Load \<lparr>path = Some ''/workspaces/abc''\<rparr>, Routed, Settle 0 (Inl ''404'')]
        (activate ''/lab/workspaces/abc'' :: nat statedb))
       = [ConsoleWarn ''Fetching workspace (abc) failed.'' ''404'']"
proof -
  have a: "\<not> disposed (activate ''/lab/workspaces/abc'' :: nat statedb)"
    by (simp add: activate_def)
  have b: "transform (activate ''/lab/workspaces/abc'' :: nat statedb) = None"
    by (simp add: activate_def)
  have c: "\<forall>ev \<in> set [Routed :: nat event]. ev = Routed"
    by simp
  have d: "fetches (activate ''/lab/workspaces/abc'' :: nat statedb) = []"
    "console (activate ''/lab/workspaces/abc'' :: nat statedb) = []"
    by (simp_all add: activate_def)
  show ?thesis
    using a b load_workspace_abc [OF a b c, of example_env 7 "''404''"]
    by (simp add: run_def d)
qed

subsection \<open>Routing without a workspace\<close>

lemma unload_fetches: "fetches (unload s) = fetches s"
  by (simp add: unload_def transform_resolve_def Let_def)

lemma unload_connected: "\<not> connected (unload s)"
  by (simp add: unload_def transform_resolve_def Let_def)

lemma step_nomatch:
  assumes "fetches s = []" and "\<not> resolving ev \<or> ev = Routed"
  shows "step e ev s = (if ev = Routed \<and> connected s then unload s else s)"
proof (cases ev)
  case (Load a)
  with assms show ?thesis by (simp add: loadState_execute_def)
next
  case (Settle i outcome)
  with assms show ?thesis by (simp add: fetch_settled_def)
next
  case Routed
  then show ?thesis by simp
qed

lemma run_nomatch_disconnected:
  "fetches s = [] \<Longrightarrow> \<not> connected s \<Longrightarrow> list_all (\<lambda>ev. \<not> resolving ev \<or> ev = Routed) es \<Longrightarrow> run e es s = s"
  unfolding run_def
  by (induction es) (simp_all add: step_nomatch)

lemma run_nomatch_connected:
  "fetches s = [] \<Longrightarrow> connected s \<Longrightarrow> list_all (\<lambda>ev. \<not> resolving ev \<or> ev = Routed) es \<Longrightarrow>
     run e es s = (if Routed \<in> set es then unload s else s)"
proof (induction es arbitrary: s)
  case Nil
  then show ?case by (simp add: run_def)
next
  case (Cons ev es)
  show ?case
  proof (cases "ev = Routed")
    case True
    have "run e es (unload s) = unload s"
      using Cons.prems by (intro run_nomatch_disconnected) (simp_all add: unload_fetches unload_connected)
    with True Cons.prems show ?thesis by (simp add: run_def)
  next
    case False
    with Cons.prems have "step e ev s = s" by (simp add: step_nomatch)
    moreover have "run e es s = (if Routed \<in> set es then unload s else s)"
      using Cons.prems by (intro Cons.IH) simp_all
    ultimately show ?thesis using False by (simp add: run_def)
  qed
qed

text \<open>
  C4.  The path \<^verbatim>\<open>/\<close> does not match the pattern.  In every run after activation in
  which the load command is only ever invoked on paths that do not match and the
  routing event fires, the transform resolves to \<open>Cancel\<close> by the single call made in
  \<^verbatim>\<open>unload\<close>, the browser URL is the one the page had at activation, and the console
  holds the one informational message: nothing is reported as a failure.
\<close>

theorem no_workspace_route_cancels:
  assumes "\<forall>a. Load a \<in> set es \<longrightarrow> match_workspace (path_or_empty a) = None"
    and "Routed \<in> set es"
  shows "match_workspace ''/'' = None
    \<and> transform (run e es (activate u)) = Some Cancel
    \<and> resolve_calls (run e es (activate u)) = [Cancel]
    \<and> url (run e es (activate u)) = u
    \<and> console (run e es (activate u)) = [ConsoleLog ''No workspace requested. Leaving state database intact.'']"
proof -
  have "\<not> resolving ev \<or> ev = Routed" if "ev \<in> set es" for ev
  proof (cases ev)
    case (Load a)
    with that assms(1) have "match_workspace (path_or_empty a) = None" by blast
    with Load show ?thesis by simp
  next
    case (Settle i outcome)
    then show ?thesis by simp
  next
    case Routed
    then show ?thesis by simp
  qed
  then have "list_all (\<lambda>ev. \<not> resolving ev \<or> ev = Routed) es"
    by (simp add: list_all_iff)
  then have "run e es (activate u) = unload (activate u)"
    using assms(2) run_nomatch_connected [of "activate u" es e] by (simp add: activate_def)
  then show ?thesis
    by (simp add: unload_def activate_def transform_resolve_def Let_def match_workspace_def)
qed

theorem no_workspace_route_cancels_witness:
  "match_workspace (path_or_empty \<lparr>path = Some ''/''\<rparr>) = None
   \<and> Routed \<in> set [Load \<lparr>path = Some ''/''\<rparr>, Routed :: nat event]
   \<and> transform (run example_env [Load \<lparr>path = Some ''/''\<rparr>, Routed] (activate ''/lab'' :: nat statedb))
       = Some Cancel
   \<and> url (run example_env [Load \<lparr>path = Some ''/''\<rparr>, Routed] (activate ''/lab'' :: nat statedb)) = ''/lab''
   \<and> transform (run example_env [Routed] (activate ''/lab'' :: nat statedb)) = Some Cancel
   \<and> url (run example_env [Routed] (activate ''/lab'' :: nat statedb)) = ''/lab''"
proof -
  have a: "\<forall>a. Load a \<in> set [Load \<lparr>path = Some ''/''\<rparr>, Routed :: nat event]
      \<longrightarrow> match_workspace (path_or_empty a) = None"
    by (simp add: path_or_empty_def match_workspace_def)
  have b: "Routed \<in> set [Load \<lparr>path = Some ''/''\<rparr>, Routed :: nat event]"
    by simp
  have c: "\<forall>a. Load a \<in> set [Routed :: nat event] \<longrightarrow> match_workspace (path_or_empty a) = None"
    by simp
  have d: "Routed \<in> set [Routed :: nat event]"
    by simp
  have m: "match_workspace (path_or_empty \<lparr>path = Some ''/''\<rparr>) = None"
    by (simp add: path_or_empty_def match_workspace_def)
  show ?thesis
    using m b no_workspace_route_cancels [OF a b, of example_env "''/lab''"]
      no_workspace_route_cancels [OF c d, of example_env "''/lab''"]
    by simp
qed

subsection \<open>The transform resolves once\<close>

lemma resolve_first_wins: "first_wins s \<Longrightarrow> first_wins (transform_resolve v s)"
  by (auto simp add: first_wins_def transform_resolve_def split: list.splits)

lemma first_wins_cong:
  "first_wins s \<Longrightarrow> transform s' = transform s \<Longrightarrow> resolve_calls s' = resolve_calls s \<Longrightarrow> first_wins s'"
  by (simp add: first_wins_def)

lemma step_first_wins: "first_wins s \<Longrightarrow> first_wins (step e ev s)"
proof (cases ev)
  case (Load a)
  show ?thesis if "first_wins s"
    using that Load
    by (auto simp add: loadState_execute_def Let_def split: option.splits
        intro!: resolve_first_wins elim: first_wins_cong)
next
  case (Settle i outcome)
  show ?thesis if "first_wins s"
    using that Settle
    by (auto simp add: fetch_settled_def Let_def split: sum.splits
        intro!: resolve_first_wins elim: first_wins_cong)
next
  case Routed
  show ?thesis if "first_wins s"
    using that Routed
    by (auto simp add: unload_def Let_def intro!: resolve_first_wins elim: first_wins_cong)
qed

lemma run_first_wins: "first_wins s \<Longrightarrow> first_wins (run e es s)"
  unfolding run_def by (induction es arbitrary: s) (simp_all add: step_first_wins)

lemma owed_resolve: "owed (transform_resolve v s) = Suc (length (resolve_calls s)) + length (fetches s)"
  by (simp add: owed_def transform_resolve_def)

lemma settle_owed: "owed (fetch_settled i outcome s) = owed s"
proof (cases "i < length (fetches s)")
  case True
  then have "Suc (length (take i (fetches s) @ drop (Suc i) (fetches s))) = length (fetches s)"
    by simp
  with True show ?thesis
    by (simp add: fetch_settled_def Let_def owed_def transform_resolve_def split: sum.splits) arith
next
  case False
  then show ?thesis by (simp add: fetch_settled_def)
qed

lemma settle_flags:
  "resolved (fetch_settled i outcome s) = resolved s"
  "connected (fetch_settled i outcome s) = connected s"
  "disposed (fetch_settled i outcome s) = disposed s"
  by (simp_all add: fetch_settled_def Let_def transform_resolve_def split: sum.splits)

lemma run_after_unload:
  "disposed s \<Longrightarrow> \<not> connected s \<Longrightarrow> owed (run e es s) = owed s"
proof (induction es arbitrary: s)
  case Nil
  then show ?case by (simp add: run_def)
next
  case (Cons ev es)
  have "disposed (step e ev s) \<and> \<not> connected (step e ev s) \<and> owed (step e ev s) = owed s"
    using Cons.prems by (cases ev) (simp_all add: settle_flags settle_owed)
  with Cons.IH [of "step e ev s"] show ?case by (simp add: run_def)
qed

lemma run_resolved_no_load:
  "resolved s \<Longrightarrow> filter is_Load es = [] \<Longrightarrow> owed (run e es s) = owed s"
proof (induction es arbitrary: s)
  case Nil
  then show ?case by (simp add: run_def)
next
  case (Cons ev es)
  have "resolved (step e ev s) \<and> owed (step e ev s) = owed s"
  proof (cases ev)
    case (Load a)
    with Cons.prems show ?thesis by simp
  next
    case (Settle i outcome)
    with Cons.prems show ?thesis by (simp add: settle_flags settle_owed)
  next
    case Routed
    with Cons.prems show ?thesis by (simp add: unload_def Let_def owed_def)
  qed
  moreover have "filter is_Load es = []"
    using Cons.prems(2) by (simp split: if_splits)
  ultimately show ?case using Cons.IH [of "step e ev s"] by (simp add: run_def)
qed

lemma load_match:
  assumes "match_workspace (path_or_empty a) \<noteq> None" and "\<not> disposed s"
  shows "resolved (step e (Load a) s) \<and> owed (step e (Load a) s) = Suc (owed s)"
  using assms
  by (auto simp add: loadState_execute_def Let_def owed_def transform_resolve_def)

lemma unload_unresolved:
  assumes "\<not> resolved s"
  shows "disposed (unload s) \<and> \<not> connected (unload s) \<and> owed (unload s) = Suc (owed s)"
  using assms by (simp add: unload_def Let_def owed_def transform_resolve_def)

lemma run_fresh:
  "\<not> resolved s \<Longrightarrow> connected s \<Longrightarrow> \<not> disposed s \<Longrightarrow> length (filter is_Load es) \<le> 1 \<Longrightarrow>
     owed (run e es s) = owed s + (if list_ex resolving es then 1 else 0)"
proof (induction es arbitrary: s)
  case Nil
  then show ?case by (simp add: run_def)
next
  case (Cons ev es)
  show ?case
  proof (cases ev)
    case (Load a)
    with Cons.prems have nl: "filter is_Load es = []" by simp
    show ?thesis
    proof (cases "match_workspace (path_or_empty a)")
      case None
      then have "step e ev s = s" using Load by (simp add: loadState_execute_def)
      moreover have "owed (run e es s) = owed s + (if list_ex resolving es then 1 else 0)"
        using Cons.prems nl by (intro Cons.IH) simp_all
      ultimately show ?thesis using Load None by (simp add: run_def)
    next
      case (Some w)
      then have m: "match_workspace (path_or_empty a) \<noteq> None" by simp
      from load_match [OF m Cons.prems(3), of e]
      have "resolved (step e (Load a) s)" and "owed (step e (Load a) s) = Suc (owed s)"
        by simp_all
      with run_resolved_no_load [of "step e (Load a) s" es e] nl
      have "owed (run e es (step e (Load a) s)) = Suc (owed s)" by simp
      with Load m show ?thesis by (simp add: run_def)
    qed
  next
    case (Settle i outcome)
    have "owed (run e es (step e ev s)) = owed (step e ev s) + (if list_ex resolving es then 1 else 0)"
      using Cons.prems Settle by (intro Cons.IH) (simp_all add: settle_flags)
    with Settle show ?thesis by (simp add: run_def settle_owed)
  next
    case Routed
    from unload_unresolved [OF Cons.prems(1)]
    have "owed (run e es (unload s)) = Suc (owed s)"
      using run_after_unload [of "unload s" e es] by simp
    with Routed Cons.prems show ?thesis by (simp add: run_def)
  qed
qed

lemma step_owed_mono: "owed s \<le> owed (step e ev s)"
proof (cases ev)
  case (Load a)
  then show ?thesis
    by (auto simp add: loadState_execute_def Let_def owed_def transform_resolve_def split: option.splits)
next
  case (Settle i outcome)
  then show ?thesis by (simp add: settle_owed)
next
  case Routed
  then show ?thesis by (simp add: unload_def Let_def owed_def transform_resolve_def)
qed

lemma run_owed_mono: "owed s \<le> owed (run e es s)"
proof (induction es arbitrary: s)
  case Nil
  then show ?case by (simp add: run_def)
next
  case (Cons ev es)
  have "owed s \<le> owed (step e ev s)" by (rule step_owed_mono)
  also have "\<dots> \<le> owed (run e es (step e ev s))" by (rule Cons.IH)
  finally show ?case by (simp add: run_def)
qed

lemma run_fresh_owes:
  "\<not> resolved s \<Longrightarrow> connected s \<Longrightarrow> \<not> disposed s \<Longrightarrow> list_ex resolving es \<Longrightarrow>
     owed s < owed (run e es s)"
proof (induction es arbitrary: s)
  case Nil
  then show ?case by simp
next
  case (Cons ev es)
  show ?case
  proof (cases "resolving ev")
    case True
    have "owed (step e ev s) = Suc (owed s)"
    proof (cases ev)
      case (Load a)
      with True Cons.prems load_match [of a s e] show ?thesis by simp
    next
      case (Settle i outcome)
      with True show ?thesis by simp
    next
      case Routed
      with Cons.prems unload_unresolved [of s] show ?thesis by simp
    qed
    with run_owed_mono [of "step e ev s" e es] show ?thesis by (simp add: run_def)
  next
    case False
    have "\<not> resolved (step e ev s) \<and> connected (step e ev s) \<and> \<not> disposed (step e ev s)
        \<and> owed (step e ev s) = owed s"
    proof (cases ev)
      case (Load a)
      with False Cons.prems show ?thesis by (simp add: loadState_execute_def)
    next
      case (Settle i outcome)
      with Cons.prems show ?thesis by (simp add: settle_flags settle_owed)
    next
      case Routed
      with False show ?thesis by simp
    qed
    moreover from False Cons.prems(4) have "list_ex resolving es" by simp
    ultimately show ?thesis using Cons.IH [of "step e ev s"] by (simp add: run_def)
  qed
qed

lemma resolve_keeps: "transform s = Some t \<Longrightarrow> transform (transform_resolve v s) = Some t"
  by (simp add: transform_resolve_def)

lemma step_keeps: "transform s = Some t \<Longrightarrow> transform (step e ev s) = Some t"
proof (cases ev)
  case (Load a)
  then show ?thesis if "transform s = Some t"
    using that
    by (auto simp add: loadState_execute_def Let_def transform_resolve_def split: option.splits)
next
  case (Settle i outcome)
  then show ?thesis if "transform s = Some t"
    using that
    by (auto simp add: fetch_settled_def Let_def transform_resolve_def split: sum.splits)
next
  case Routed
  then show ?thesis if "transform s = Some t"
    using that by (auto simp add: unload_def Let_def transform_resolve_def)
qed

lemma run_keeps: "transform s = Some t \<Longrightarrow> transform (run e es s) = Some t"
  unfolding run_def by (induction es arbitrary: s) (simp_all add: step_keeps)

text \<open>
  C1, as the code has it.  Take any run after activation in which the routing event
  fires or the load command is executed on a matching path, and in which every workspace
  fetch that was started has settled.  Then the transform promise is resolved, it keeps
  that value whatever happens later, and when the load command was invoked at most once
  \<^verbatim>\<open>transform.resolve\<close> has been called exactly once.
\<close>

theorem transform_resolved_once:
  assumes "list_ex resolving es"
    and "fetches (run e es (activate u)) = []"
  shows "\<exists>t. transform (run e es (activate u)) = Some t
    \<and> (\<forall>es'. transform (run e es' (run e es (activate u))) = Some t)
    \<and> (length (filter is_Load es) \<le> 1 \<longrightarrow> resolve_calls (run e es (activate u)) = [t])"
proof -
  let ?s = "run e es (activate u) :: 'a statedb"
  have "first_wins (activate u :: 'a statedb)"
    by (simp add: first_wins_def activate_def)
  then have fw: "first_wins ?s" by (rule run_first_wins)
  have "owed (activate u :: 'a statedb) < owed ?s"
    using assms(1) by (intro run_fresh_owes) (simp_all add: activate_def)
  with assms(2) have "resolve_calls ?s \<noteq> []"
    by (auto simp add: owed_def)
  then obtain t ts where t: "resolve_calls ?s = t # ts"
    by (cases "resolve_calls ?s") simp_all
  with fw have tr: "transform ?s = Some t" by (simp add: first_wins_def)
  have once: "resolve_calls ?s = [t]" if "length (filter is_Load es) \<le> 1"
  proof -
    have "owed ?s = owed (activate u :: 'a statedb) + (if list_ex resolving es then 1 else 0)"
      using that by (intro run_fresh) (simp_all add: activate_def)
    with assms t show ?thesis by (simp add: owed_def activate_def)
  qed
  from tr once run_keeps [OF tr] show ?thesis by blast
qed

theorem transform_resolved_once_witness:
  "list_ex resolving [Load \<lparr>path = Some ''/workspaces/abc''\<rparr>, Routed, Settle 0 (Inr (7::nat))]
   \<and> fetches (run example_env [Load \<lparr>path = Some ''/workspaces/abc''\<rparr>, Routed, Settle 0 (Inr (7::nat))]
        (activate ''/lab/workspaces/abc'')) = []
   \<and> length (filter is_Load [Load \<lparr>path = Some ''/workspaces/abc''\<rparr>, Routed, Settle 0 (Inr (7::nat))]) \<le> 1
   \<and> resolve_calls (run example_env [Load \<lparr>path = Some ''/workspaces/abc''\<rparr>, Routed, Settle 0 (Inr (7::nat))]
        (activate ''/lab/workspaces/abc'')) = [Overwrite 7]
   \<and> transform (run example_env [Load \<lparr>path = Some ''/workspaces/abc''\<rparr>, Routed, Settle 0 (Inr (7::nat))]
        (activate ''/lab/workspaces/abc'')) = Some (Overwrite 7)"
proof -
  let ?es = "[Load \<lparr>path = Some ''/workspaces/abc''\<rparr>, Routed, Settle 0 (Inr (7::nat))]"
  have r: "run example_env ?es (activate ''/lab/workspaces/abc'')
      = \<lparr>resolved = True, transform = Some (Overwrite 7), resolve_calls = [Overwrite 7],
         disposed = True, connected = False, fetches = [], url = ''/lab'', console = []\<rparr>"
    by (simp add: run_def activate_def loadState_execute_def path_or_empty_def match_workspace_def
        line_terminator_def unload_def fetch_settled_def transform_resolve_def example_env_def Let_def)
  have a: "list_ex resolving ?es" by simp
  have b: "fetches (run example_env ?es (activate ''/lab/workspaces/abc'')) = []"
    by (simp add: r)
  show ?thesis
    using a b transform_resolved_once [OF a b] by (simp add: r)
qed

text \<open>
  C1, as stated, fails: with no routing event and no load the transform is never
  resolved.  Neither is it while a started fetch has not settled, and two executions of
  the load command call \<^verbatim>\<open>transform.resolve\<close> twice.
\<close>

theorem transform_unresolved_without_events:
  "transform (run example_env [] (activate ''/lab'' :: nat statedb)) = None
   \<and> resolve_calls (run example_env [] (activate ''/lab'' :: nat statedb)) = []
   \<and> transform (run example_env [Load \<lparr>path = Some ''/workspaces/abc''\<rparr>, Routed]
        (activate ''/lab/workspaces/abc'' :: nat statedb)) = None
   \<and> resolve_calls (run example_env [Load \<lparr>path = Some ''/workspaces/abc''\<rparr>,
          Load \<lparr>path = Some ''/workspaces/abc''\<rparr>, Settle 0 (Inr 1), Settle 0 (Inr 2)]
        (activate ''/lab/workspaces/abc'' :: nat statedb)) = [Overwrite 1, Overwrite 2]"
  by (simp add: run_def activate_def loadState_execute_def path_or_empty_def match_workspace_def
      line_terminator_def unload_def fetch_settled_def transform_resolve_def example_env_def Let_def)

subsection \<open>The save command\<close>

text \<open>
  C9.  The save command asks \<^verbatim>\<open>Time.format\<close> for the format \<^verbatim>\<open>YYYYMMDDHHmm-x\<close> and uses the
  result as workspace id.  Its first effect is the copy of the joined workspace URL to
  the clipboard; serialising the store and saving the workspace under that id (with the
  id as metadata) come after it.  The returned promise is never rejected: a rejected
  save, or a rejected serialisation, ends in one console warning and a fulfilled promise.
\<close>

theorem saveState_copies_then_saves:
  "fst (saveState_execute e Time_format date toJSON workspaces_save) \<noteq> []
   \<and> hd (fst (saveState_execute e Time_format date toJSON workspaces_save))
       = CopyToSystem (URLExt_join e (getWorkspacesUrl e) (Time_format date ''YYYYMMDDHHmm-x''))
   \<and> (\<forall>r. snd (saveState_execute e Time_format date toJSON workspaces_save) \<noteq> Rejected r)
   \<and> (\<forall>d. toJSON = Fulfilled d \<longrightarrow>
        take 3 (fst (saveState_execute e Time_format date toJSON workspaces_save))
          = [CopyToSystem (URLExt_join e (getWorkspacesUrl e) (Time_format date ''YYYYMMDDHHmm-x'')),
             ToJSON,
             WorkspaceSave (Time_format date ''YYYYMMDDHHmm-x'') d (Time_format date ''YYYYMMDDHHmm-x'')])
   \<and> (\<forall>d r. toJSON = Fulfilled d
          \<and> workspaces_save (Time_format date ''YYYYMMDDHHmm-x'') d (Time_format date ''YYYYMMDDHHmm-x'') = Rejected r \<longrightarrow>
        saveState_execute e Time_format date toJSON workspaces_save
          = ([CopyToSystem (URLExt_join e (getWorkspacesUrl e) (Time_format date ''YYYYMMDDHHmm-x'')),
              ToJSON,
              WorkspaceSave (Time_format date ''YYYYMMDDHHmm-x'') d (Time_format date ''YYYYMMDDHHmm-x''),
              Warn ''Saving workspace failed.'' r],
             Fulfilled ()))
   \<and> (\<forall>r. toJSON = Rejected r \<longrightarrow>
        saveState_execute e Time_format date toJSON workspaces_save
          = ([CopyToSystem (URLExt_join e (getWorkspacesUrl e) (Time_format date ''YYYYMMDDHHmm-x'')),
              ToJSON, Warn ''Saving workspace failed.'' r],
             Fulfilled ()))"
  by (auto simp add: saveState_execute_def then_e_def catch_e_def Let_def split: promise.splits)

theorem saveState_copies_then_saves_witness:
  "saveState_execute example_env example_format 0 (Fulfilled (5::nat)) (\<lambda>i d m. Rejected ''500'')
     = ([CopyToSystem ''/lab/workspaces/201803151230-1521117000000'', ToJSON,
         WorkspaceSave ''201803151230-1521117000000'' 5 ''201803151230-1521117000000'',
         Warn ''Saving workspace failed.'' ''500''], Fulfilled ())"
  using saveState_copies_then_saves [of example_env example_format 0 "Fulfilled (5::nat)" "\<lambda>i d m. Rejected ''500''"]
  by (simp add: example_env_def example_format_def)

end
